theory Spec2Isabelle
  imports Main
begin

section \<open>Text primitives of the Python runtime\<close>

text \<open>
  The program works on Python \<^verbatim>\<open>str\<close> values. A character is modelled by a HOL
  \<^typ>\<open>char\<close>, read as the code point 0..255, so the development covers texts over
  the first 256 code points. On that alphabet the character classes below are the ones
  of Python's \<^verbatim>\<open>re\<close> module for \<^verbatim>\<open>str\<close> patterns and of the \<^verbatim>\<open>str\<close> methods.
\<close>

abbreviation SQ :: char where "SQ \<equiv> CHR 0x27"
abbreviation DQ :: char where "DQ \<equiv> CHR 0x22"
abbreviation BSL :: char where "BSL \<equiv> CHR 0x5C"
abbreviation NL :: char where "NL \<equiv> CHR 0x0A"
abbreviation CR :: char where "CR \<equiv> CHR 0x0D"
abbreviation SEMI :: char where "SEMI \<equiv> CHR '';''"

definition is_space :: "char \<Rightarrow> bool" where
  \<comment> \<open>\<^verbatim>\<open>\s\<close> and \<^verbatim>\<open>str.isspace\<close>: 09..0D, 1C..1F, 20, 85, A0\<close>
  "is_space c \<longleftrightarrow>
     c \<in> set [CHR 0x09, CHR 0x0A, CHR 0x0B, CHR 0x0C, CHR 0x0D, CHR 0x1C, CHR 0x1D,
              CHR 0x1E, CHR 0x1F, CHR 0x20, CHR 0x85, CHR 0xA0]"

definition is_linebreak :: "char \<Rightarrow> bool" where
  \<comment> \<open>the line boundaries of \<^verbatim>\<open>str.splitlines\<close>: 0A..0D, 1C..1E, 85\<close>
  "is_linebreak c \<longleftrightarrow>
     c \<in> set [CHR 0x0A, CHR 0x0B, CHR 0x0C, CHR 0x0D, CHR 0x1C, CHR 0x1D, CHR 0x1E, CHR 0x85]"

definition is_digit :: "char \<Rightarrow> bool" where
  \<comment> \<open>\<^verbatim>\<open>\d\<close>: the decimal digits 0..9\<close>
  "is_digit c \<longleftrightarrow> (let n = (of_char c :: nat) in 48 \<le> n \<and> n \<le> 57)"

definition is_word :: "char \<Rightarrow> bool" where
  \<comment> \<open>\<^verbatim>\<open>\w\<close>: alphanumeric code points and the underscore\<close>
  "is_word c \<longleftrightarrow>
     (let n = (of_char c :: nat) in
        (48 \<le> n \<and> n \<le> 57) \<or> (65 \<le> n \<and> n \<le> 90) \<or> n = 95 \<or> (97 \<le> n \<and> n \<le> 122) \<or>
        n \<in> set [170, 178, 179, 181, 185, 186, 188, 189, 190] \<or>
        (192 \<le> n \<and> n \<le> 214) \<or> (216 \<le> n \<and> n \<le> 246) \<or> 248 \<le> n)"

definition ascii_lower :: "char \<Rightarrow> char" where
  "ascii_lower c = (let n = (of_char c :: nat) in if 65 \<le> n \<and> n \<le> 90 then char_of (n + 32) else c)"

definition ascii_upper :: "char \<Rightarrow> char" where
  "ascii_upper c = (let n = (of_char c :: nat) in if 97 \<le> n \<and> n \<le> 122 then char_of (n - 32) else c)"

fun startswith :: "string \<Rightarrow> string \<Rightarrow> bool" where
  "startswith s [] = True"
| "startswith [] (p # ps) = False"
| "startswith (c # cs) (p # ps) = (c = p \<and> startswith cs ps)"

fun ci_startswith :: "string \<Rightarrow> string \<Rightarrow> bool" where
  \<comment> \<open>a literal of lower-case letters matched at the head of the text under \<^verbatim>\<open>re.IGNORECASE\<close>\<close>
  "ci_startswith s [] = True"
| "ci_startswith [] (p # ps) = False"
| "ci_startswith (c # cs) (p # ps) = (ascii_lower c = p \<and> ci_startswith cs ps)"

fun contains :: "string \<Rightarrow> string \<Rightarrow> bool" where
  \<comment> \<open>\<^verbatim>\<open>sub in s\<close>\<close>
  "contains sub [] = (sub = [])"
| "contains sub (c # cs) = (startswith (c # cs) sub \<or> contains sub cs)"

definition strip :: "string \<Rightarrow> string" where
  \<comment> \<open>\<^verbatim>\<open>s.strip()\<close>\<close>
  "strip s = rev (dropWhile is_space (rev (dropWhile is_space s)))"

definition rstrip_char :: "char \<Rightarrow> string \<Rightarrow> string" where
  \<comment> \<open>\<^verbatim>\<open>s.rstrip(c)\<close> for a one-character argument\<close>
  "rstrip_char x s = rev (dropWhile (\<lambda>c. c = x) (rev s))"

definition lstrip_char :: "char \<Rightarrow> string \<Rightarrow> string" where
  \<comment> \<open>\<^verbatim>\<open>s.lstrip(c)\<close> for a one-character argument\<close>
  "lstrip_char x s = dropWhile (\<lambda>c. c = x) s"

fun splitlines_from :: "string \<Rightarrow> string \<Rightarrow> string list" where
  \<comment> \<open>\<^verbatim>\<open>str.splitlines\<close>, the first argument being the line read so far; CR LF is one boundary\<close>
  "splitlines_from cur [] = (if cur = [] then [] else [cur])"
| "splitlines_from cur [c] = (if is_linebreak c then [cur] else [cur @ [c]])"
| "splitlines_from cur (c # d # cs) =
     (if c = CR \<and> d = NL then cur # splitlines_from [] cs
      else if is_linebreak c then cur # splitlines_from [] (d # cs)
      else splitlines_from (cur @ [c]) (d # cs))"

definition splitlines :: "string \<Rightarrow> string list" where
  "splitlines s = splitlines_from [] s"

fun join_nl :: "string list \<Rightarrow> string" where
  \<comment> \<open>\<^verbatim>\<open>'\n'.join(xs)\<close>\<close>
  "join_nl [] = []"
| "join_nl [x] = x"
| "join_nl (x # y # ys) = x @ NL # join_nl (y # ys)"

section \<open>The statement splitter: comment filter\<close>

fun after_close :: "string \<Rightarrow> string option" where
  \<comment> \<open>the text behind the first \<^verbatim>\<open>*/\<close>, if there is one\<close>
  "after_close [] = None"
| "after_close [c] = None"
| "after_close (c # d # cs) =
     (if c = CHR ''*'' \<and> d = CHR ''/'' then Some cs else after_close (d # cs))"

lemma after_close_length: "after_close s = Some r \<Longrightarrow> length r < length s"
  by (induction s arbitrary: r rule: after_close.induct) (auto split: if_splits)

function sub_inline_block :: "string \<Rightarrow> string" where
  \<comment> \<open>\<^verbatim>\<open>re.sub(r'/\*.*?\*/', ' ', l)\<close> on a line (no newline in it)\<close>
  "sub_inline_block [] = []"
| "sub_inline_block (c # cs) =
     (if startswith (c # cs) ''/*'' then
        (case after_close (drop 2 (c # cs)) of
           Some r \<Rightarrow> CHR '' '' # sub_inline_block r
         | None \<Rightarrow> c # sub_inline_block cs)
      else c # sub_inline_block cs)"
  by pat_completeness auto
termination
proof (relation "measure length")
  fix c cs r
  assume "after_close (drop 2 (c # cs)) = Some r"
  then have "length r < length (drop 2 (c # cs))" by (rule after_close_length)
  then show "(r, c # cs) \<in> measure length" by simp
qed auto

definition is_q_marker_line :: "string \<Rightarrow> bool" where
  \<comment> \<open>\<^verbatim>\<open>re.match(r'\s*--\s*Q\d+', l, flags=re.IGNORECASE)\<close>\<close>
  "is_q_marker_line l \<longleftrightarrow>
     (let r1 = dropWhile is_space l in
      startswith r1 ''--'' \<and>
      (case dropWhile is_space (drop 2 r1) of
         q # d # _ \<Rightarrow> ascii_lower q = CHR ''q'' \<and> is_digit d
       | _ \<Rightarrow> False))"

definition segment_num_at :: "string \<Rightarrow> bool" where
  \<comment> \<open>\<^verbatim>\<open>Segment\s+\d+\<close> matched at the head of the text, ignoring case\<close>
  "segment_num_at s \<longleftrightarrow>
     ci_startswith s ''segment'' \<and>
     (case drop 7 s of
        [] \<Rightarrow> False
      | w # r \<Rightarrow> is_space w \<and> (case dropWhile is_space r of [] \<Rightarrow> False | d # _ \<Rightarrow> is_digit d))"

fun has_segment_num :: "string \<Rightarrow> bool" where
  \<comment> \<open>\<^verbatim>\<open>re.search(r'Segment\s+\d+', l, flags=re.IGNORECASE)\<close>\<close>
  "has_segment_num [] = False"
| "has_segment_num (c # cs) = (segment_num_at (c # cs) \<or> has_segment_num cs)"

fun strip_line_comment :: "string \<Rightarrow> string" where
  \<comment> \<open>\<^verbatim>\<open>re.sub(r'--.*$', '', l)\<close> on a line (no newline in it)\<close>
  "strip_line_comment [] = []"
| "strip_line_comment (c # cs) =
     (if startswith (c # cs) ''--'' then [] else c # strip_line_comment cs)"

fun comment_filter :: "bool \<Rightarrow> string list \<Rightarrow> string list" where
  \<comment> \<open>the first loop of \<^verbatim>\<open>split_mysql_statements\<close>; the flag is \<^verbatim>\<open>in_block\<close>\<close>
  "comment_filter in_block [] = []"
| "comment_filter in_block (line # lines) =
     (let in_block1 = (if contains ''/*'' line \<and> \<not> contains ''*/'' line then True else in_block) in
      if in_block1 then
        comment_filter (if contains ''*/'' line then False else in_block1) lines
      else
        (let l = sub_inline_block line in
         if is_q_marker_line l \<or> has_segment_num l then l # comment_filter in_block1 lines
         else strip_line_comment l # comment_filter in_block1 lines))"

definition filtered_text :: "string \<Rightarrow> string" where
  \<comment> \<open>\<^verbatim>\<open>text = '\n'.join(kept)\<close>\<close>
  "filtered_text sql_text = join_nl (comment_filter False (splitlines sql_text))"

section \<open>The statement splitter: character scan\<close>

record scan_state =
  stmts :: "string list"
  buff :: string
  in_single :: bool
  in_double :: bool
  esc :: bool

definition scan_init :: scan_state where
  "scan_init = \<lparr>stmts = [], buff = [], in_single = False, in_double = False, esc = False\<rparr>"

definition scan_step :: "scan_state \<Rightarrow> char \<Rightarrow> scan_state" where
  \<comment> \<open>one round of \<^verbatim>\<open>for ch in text\<close>\<close>
  "scan_step st ch =
     (let s1 = (if ch = SQ \<and> \<not> in_double st \<and> \<not> esc st then \<not> in_single st else in_single st);
          d1 = (if ch = SQ \<and> \<not> in_double st \<and> \<not> esc st then in_double st
                else if ch = DQ \<and> \<not> in_single st \<and> \<not> esc st then \<not> in_double st
                else in_double st);
          e1 = (ch = BSL \<and> \<not> esc st)
      in if ch = SEMI \<and> \<not> s1 \<and> \<not> d1
         then st\<lparr>stmts := stmts st @ [strip (buff st)], buff := [], in_single := s1, in_double := d1, esc := e1\<rparr>
         else st\<lparr>buff := buff st @ [ch], in_single := s1, in_double := d1, esc := e1\<rparr>)"

definition scan_chars :: "scan_state \<Rightarrow> string \<Rightarrow> scan_state" where
  "scan_chars st text = foldl scan_step st text"

definition scan_finish :: "scan_state \<Rightarrow> string list" where
  \<comment> \<open>the flush of the last buffer and the final filter\<close>
  "scan_finish st =
     (let stmts1 = (if buff st \<noteq> [] then
                      (let tail = strip (buff st) in
                       if tail \<noteq> [] then stmts st @ [tail] else stmts st)
                    else stmts st)
      in filter (\<lambda>s. strip s \<noteq> []) stmts1)"

definition split_mysql_statements :: "string \<Rightarrow> string list" where
  "split_mysql_statements sql_text = scan_finish (scan_chars scan_init (filtered_text sql_text))"

section \<open>The marker extractor\<close>

datatype error = ValueError

record entry =
  label :: string
  sql :: string

definition word_boundary :: "bool \<Rightarrow> string \<Rightarrow> bool" where
  \<comment> \<open>\<^verbatim>\<open>\b\<close>: the flag says whether the character before the position is a word
     character (False at the start of the text), the string is the text from the position on\<close>
  "word_boundary pw s \<longleftrightarrow> pw \<noteq> (case s of [] \<Rightarrow> False | c # _ \<Rightarrow> is_word c)"

definition segment1_at :: "bool \<Rightarrow> string \<Rightarrow> bool" where
  \<comment> \<open>\<^verbatim>\<open>\bSegment\s*1\b\<close> matched at the head of the text, ignoring case\<close>
  "segment1_at pw s \<longleftrightarrow>
     word_boundary pw s \<and> ci_startswith s ''segment'' \<and>
     (let r = dropWhile is_space (drop 7 s) in startswith r ''1'' \<and> word_boundary True (drop 1 r))"

fun has_segment1_from :: "bool \<Rightarrow> string \<Rightarrow> bool" where
  "has_segment1_from pw [] = False"
| "has_segment1_from pw (c # cs) = (segment1_at pw (c # cs) \<or> has_segment1_from (is_word c) cs)"

definition has_segment1 :: "string \<Rightarrow> bool" where
  \<comment> \<open>\<^verbatim>\<open>re.search(r'\bSegment\s*1\b', s, flags=re.IGNORECASE)\<close>\<close>
  "has_segment1 s = has_segment1_from False s"

fun first_segment1 :: "nat \<Rightarrow> string list \<Rightarrow> nat option" where
  \<comment> \<open>the loop over \<^verbatim>\<open>enumerate(statements)\<close> that sets \<^verbatim>\<open>seg1_idx\<close> and breaks\<close>
  "first_segment1 i [] = None"
| "first_segment1 i (s # ss) = (if has_segment1 s then Some i else first_segment1 (Suc i) ss)"

definition setup_of :: "string list \<Rightarrow> string list" where
  "setup_of statements =
     (case first_segment1 0 statements of None \<Rightarrow> statements | Some i \<Rightarrow> take i statements)"

definition q_line_rest :: "string \<Rightarrow> string" where
  \<comment> \<open>what \<^verbatim>\<open>\d*\s*[-]*\s*(.*)$\<close> leaves unread: each quantifier is greedy, the dot stops at a
     newline, and \<^verbatim>\<open>$\<close> holds there under \<^verbatim>\<open>re.MULTILINE\<close>. The two other dashes of the
     source's class are code points above 255.\<close>
  "q_line_rest r =
     dropWhile (\<lambda>c. c \<noteq> NL)
       (dropWhile is_space (dropWhile (\<lambda>c. c = CHR ''-'') (dropWhile is_space (dropWhile is_digit r))))"

definition q_match_at :: "string \<Rightarrow> (string \<times> nat) option" where
  \<comment> \<open>\<^verbatim>\<open>\s*--\s*(Q\d+)\s*[-]*\s*(.*)$\<close> matched at a line start, with \<^verbatim>\<open>re.IGNORECASE\<close> and
     \<^verbatim>\<open>re.MULTILINE\<close>: group 1 and the length of the match. The first attempt of the
     greedy quantifiers succeeds or the match fails.\<close>
  "q_match_at s =
     (let r1 = dropWhile is_space s in
      if \<not> startswith r1 ''--'' then None
      else
        (case dropWhile is_space (drop 2 r1) of
           [] \<Rightarrow> None
         | q # r2 \<Rightarrow>
             if ascii_lower q \<noteq> CHR ''q'' \<or> takeWhile is_digit r2 = [] then None
             else Some (q # takeWhile is_digit r2, length s - length (q_line_rest r2))))"

lemma q_line_rest_length: "length (q_line_rest r) \<le> length r"
proof -
  have le: "length (dropWhile P xs) \<le> length xs" for P and xs :: string
    by (rule length_dropWhile_le)
  have "length (q_line_rest r) \<le>
      length (dropWhile is_space (dropWhile (\<lambda>c. c = CHR ''-'') (dropWhile is_space (dropWhile is_digit r))))"
    unfolding q_line_rest_def by (rule le)
  also have "\<dots> \<le> length (dropWhile (\<lambda>c. c = CHR ''-'') (dropWhile is_space (dropWhile is_digit r)))"
    by (rule le)
  also have "\<dots> \<le> length (dropWhile is_space (dropWhile is_digit r))" by (rule le)
  also have "\<dots> \<le> length (dropWhile is_digit r)" by (rule le)
  also have "\<dots> \<le> length r" by (rule le)
  finally show ?thesis .
qed

lemma q_match_at_SomeE:
  assumes "q_match_at s = Some (g, n)"
  obtains q r2 where "dropWhile is_space (drop 2 (dropWhile is_space s)) = q # r2"
    and "startswith (dropWhile is_space s) ''--''"
    and "ascii_lower q = CHR ''q''" and "takeWhile is_digit r2 \<noteq> []"
    and "g = q # takeWhile is_digit r2" and "n = length s - length (q_line_rest r2)"
proof (cases "startswith (dropWhile is_space s) ''--''")
  case nsw: False
  from assms nsw have False unfolding q_match_at_def Let_def by simp
  then show ?thesis ..
next
  case sw: True
  show ?thesis
  proof (cases "dropWhile is_space (drop 2 (dropWhile is_space s))")
    case Nil
    from assms sw Nil have False unfolding q_match_at_def Let_def
      by (simp del: dropWhile_eq_Nil_conv)
    then show ?thesis ..
  next
    case (Cons q r2)
    from assms sw Cons have props: "ascii_lower q = CHR ''q'' \<and> takeWhile is_digit r2 \<noteq> [] \<and>
        g = q # takeWhile is_digit r2 \<and> n = length s - length (q_line_rest r2)"
      unfolding q_match_at_def Let_def by (simp split: if_splits)
    show ?thesis
      by (rule that [OF Cons sw conjunct1 [OF props] conjunct1 [OF conjunct2 [OF props]]
            conjunct1 [OF conjunct2 [OF conjunct2 [OF props]]]
            conjunct2 [OF conjunct2 [OF conjunct2 [OF props]]]])
  qed
qed

lemma q_match_at_length:
  assumes "q_match_at s = Some (g, n)"
  shows "0 < n \<and> n \<le> length s"
proof -
  let ?r1 = "dropWhile is_space s"
  from assms obtain q r2
    where r2: "dropWhile is_space (drop 2 ?r1) = q # r2"
      and n: "n = length s - length (q_line_rest r2)"
    by (rule q_match_at_SomeE)
  have "length (q_line_rest r2) \<le> length r2" by (rule q_line_rest_length)
  moreover have "length r2 < length (dropWhile is_space (drop 2 ?r1))"
    unfolding r2 by simp
  moreover have "length (dropWhile is_space (drop 2 ?r1)) \<le> length s"
  proof -
    have "length (dropWhile is_space (drop 2 ?r1)) \<le> length (drop 2 ?r1)"
      by (rule length_dropWhile_le)
    also have "\<dots> \<le> length ?r1" by simp
    also have "\<dots> \<le> length s" by (rule length_dropWhile_le)
    finally show ?thesis .
  qed
  ultimately show ?thesis using n by linarith
qed

function q_finditer :: "bool \<Rightarrow> nat \<Rightarrow> string \<Rightarrow> (string \<times> nat \<times> string) list" where
  \<comment> \<open>\<^verbatim>\<open>[(m.group(1).upper(), m.start(), m.group(0)) for m in q_pat.finditer(raw)]\<close>, read
     from offset \<open>pos\<close> on; the flag says whether \<^verbatim>\<open>^\<close> matches at \<open>pos\<close>\<close>
  "q_finditer bol pos [] = []"
| "q_finditer bol pos (c # cs) =
     (case (if bol then q_match_at (c # cs) else None) of
        Some (g1, n) \<Rightarrow>
          (map ascii_upper g1, pos, take n (c # cs)) #
            q_finditer (last (take n (c # cs)) = NL) (pos + n) (drop n (c # cs))
      | None \<Rightarrow> q_finditer (c = NL) (pos + 1) cs)"
  by pat_completeness auto
termination
proof (relation "measure (\<lambda>(bol, pos, s). length s)")
  fix bol :: bool and pos :: nat and c cs x2 g1 n
  assume "(if bol then q_match_at (c # cs) else None) = Some x2" and "(g1, n) = x2"
  then have "q_match_at (c # cs) = Some (g1, n)" by (simp split: if_splits)
  then have "0 < n" using q_match_at_length by blast
  then show "((last (take n (c # cs)) = NL, pos + n, drop n (c # cs)), (bol, pos, c # cs))
      \<in> measure (\<lambda>(bol, pos, s). length s)"
    by simp
qed auto

definition select_tail :: "string \<Rightarrow> string option" where
  \<comment> \<open>\<^verbatim>\<open>SELECT\b.*?;\<close> matched at the head of the text with \<^verbatim>\<open>(?is)\<close>: the matched text\<close>
  "select_tail s =
     (if ci_startswith s ''select'' \<and> word_boundary True (drop 6 s) \<and> SEMI \<in> set (drop 6 s)
      then Some (take 6 s @ takeWhile (\<lambda>c. c \<noteq> SEMI) (drop 6 s) @ [SEMI])
      else None)"

fun lazy_select_tail :: "string \<Rightarrow> string option" where
  \<comment> \<open>\<^verbatim>\<open>.*?SELECT\b.*?;\<close>: the lazy run grows one character at a time until the rest matches\<close>
  "lazy_select_tail [] = None"
| "lazy_select_tail (c # cs) =
     (case select_tail (c # cs) of
        Some m \<Rightarrow> Some m
      | None \<Rightarrow> map_option (\<lambda>m. c # m) (lazy_select_tail cs))"

definition with_tail :: "string \<Rightarrow> string option" where
  \<comment> \<open>\<^verbatim>\<open>WITH\b.+?SELECT\b.*?;\<close> matched at the head of the text with \<^verbatim>\<open>(?is)\<close>\<close>
  "with_tail s =
     (if ci_startswith s ''with'' \<and> word_boundary True (drop 4 s) then
        (case drop 4 s of
           [] \<Rightarrow> None
         | c # cs \<Rightarrow> map_option (\<lambda>m. take 4 s @ c # m) (lazy_select_tail cs))
      else None)"

definition query_at :: "bool \<Rightarrow> string \<Rightarrow> string option" where
  \<comment> \<open>\<^verbatim>\<open>\b(SELECT|WITH\b.+?SELECT)\b.*?;\<close> matched at the head of the text\<close>
  "query_at pw s =
     (if word_boundary pw s then
        (case select_tail s of Some m \<Rightarrow> Some m | None \<Rightarrow> with_tail s)
      else None)"

fun query_search_from :: "bool \<Rightarrow> string \<Rightarrow> string option" where
  "query_search_from pw [] = None"
| "query_search_from pw (c # cs) =
     (case query_at pw (c # cs) of
        Some m \<Rightarrow> Some m
      | None \<Rightarrow> query_search_from (is_word c) cs)"

definition query_search :: "string \<Rightarrow> string option" where
  \<comment> \<open>\<^verbatim>\<open>re.search(r'(?is)\b(SELECT|WITH\b.+?SELECT)\b.*?;', block)\<close>: \<^verbatim>\<open>m.group(0)\<close>\<close>
  "query_search block = query_search_from False block"

definition digits_value :: "string \<Rightarrow> nat" where
  \<comment> \<open>the number that a text of decimal digits denotes\<close>
  "digits_value ds = foldl (\<lambda>n c. 10 * n + (of_char c - 48)) 0 ds"

definition int_max_str_digits :: nat where
  \<comment> \<open>the interpreter's default limit on the digits of a conversion between text and
     integer (\<^verbatim>\<open>sys.get_int_max_str_digits()\<close>, CPython 3.11 and later)\<close>
  "int_max_str_digits = 4300"

definition py_int :: "string \<Rightarrow> error + nat" where
  \<comment> \<open>\<^verbatim>\<open>int(s)\<close> for a text without non-digits, as \<^verbatim>\<open>re.sub(r'\D', '', qkey)\<close> leaves it:
     the empty text raises, and so does a text of more digits than the interpreter's
     limit (leading zeros count). The source catches neither.\<close>
  "py_int ds =
     (if ds = [] \<or> \<not> list_all is_digit ds \<or> int_max_str_digits < length ds
      then Inl ValueError
      else Inr (digits_value ds))"

fun dec :: "nat \<Rightarrow> string" where
  \<comment> \<open>the decimal digits of a number\<close>
  "dec n = (if n < 10 then [char_of (48 + n)] else dec (n div 10) @ [char_of (48 + n mod 10)])"

declare dec.simps [simp del]

definition fmt_02d :: "nat \<Rightarrow> string" where
  \<comment> \<open>the format \<^verbatim>\<open>{qnum:02d}\<close>: zeros on the left up to width 2\<close>
  "fmt_02d n = replicate (2 - length (dec n)) (CHR ''0'') @ dec n"

definition qstd :: "nat \<Rightarrow> string" where
  \<comment> \<open>\<^verbatim>\<open>f"Q{qnum:02d}"\<close>\<close>
  "qstd qnum = CHR ''Q'' # fmt_02d qnum"

definition block_of :: "string \<Rightarrow> nat \<Rightarrow> (string \<times> nat \<times> string) list \<Rightarrow> string" where
  \<comment> \<open>\<^verbatim>\<open>raw[start_pos:end_pos]\<close>, the end being the next marker's start or the length of the text\<close>
  "block_of raw start_pos rest =
     (let end_pos = (case rest of [] \<Rightarrow> length raw | (_, p, _) # _ \<Rightarrow> p)
      in take (end_pos - start_pos) (drop start_pos raw))"

fun query_loop ::
  "string \<Rightarrow> (string \<times> nat \<times> string) list \<Rightarrow> (string \<rightharpoonup> entry) \<Rightarrow> error + (string \<rightharpoonup> entry)" where
  \<comment> \<open>the loop over \<^verbatim>\<open>enumerate(q_positions)\<close>, from the current marker on\<close>
  "query_loop raw [] queries = Inr queries"
| "query_loop raw ((qkey, start_pos, label_line) # rest) queries =
     (case query_search (block_of raw start_pos rest) of
        None \<Rightarrow> query_loop raw rest queries
      | Some m \<Rightarrow>
          (case py_int (filter is_digit qkey) of
             Inl e \<Rightarrow> Inl e
           | Inr qnum \<Rightarrow>
               query_loop raw rest
                 (queries(qstd qnum \<mapsto>
                    \<lparr>label = strip (lstrip_char (CHR ''-'') (strip label_line)),
                     sql = rstrip_char SEMI (strip m)\<rparr>))))"

definition extract_setup_and_queries ::
  "string \<Rightarrow> error + (string list \<times> (string \<rightharpoonup> entry))" where
  "extract_setup_and_queries raw =
     (let statements = split_mysql_statements raw;
          setup_statements = setup_of statements;
          q_positions = q_finditer True 0 raw
      in case query_loop raw q_positions Map.empty of
           Inl e \<Rightarrow> Inl e
         | Inr queries \<Rightarrow> Inr (setup_statements, queries))"

section \<open>Reference notions of the specification\<close>

fun spec_quoted_body :: "char \<Rightarrow> bool \<Rightarrow> string \<Rightarrow> bool" where
  \<comment> \<open>The text between the quotes of a string literal, as the specification describes it:
     every occurrence of the quote character in it is escaped by a backslash that is
     not itself escaped, and it does not end in an escaping backslash. The flag says
     whether an escape is active before the text.\<close>
  "spec_quoted_body q e [] = (\<not> e)"
| "spec_quoted_body q e (c # cs) =
     ((if c = q then e else True) \<and> spec_quoted_body q (c = BSL \<and> \<not> e) cs)"

fun spec_quotes_escaped :: "bool \<Rightarrow> string \<Rightarrow> bool" where
  \<comment> \<open>Every quote character of the text, single or double, is escaped by a backslash that
     is not itself escaped. The flag says whether an escape is active before the text.\<close>
  "spec_quotes_escaped e [] = True"
| "spec_quotes_escaped e (c # cs) =
     ((if c = SQ \<or> c = DQ then e else True) \<and> spec_quotes_escaped (c = BSL \<and> \<not> e) cs)"






section \<open>The character scan and quoted text\<close>

lemma scan_chars_Nil: "scan_chars st [] = st"
  by (simp add: scan_chars_def)

lemma scan_chars_Cons: "scan_chars st (c # cs) = scan_chars (scan_step st c) cs"
  by (simp add: scan_chars_def)

lemma scan_chars_append: "scan_chars st (a @ b) = scan_chars (scan_chars st a) b"
  by (simp add: scan_chars_def)

lemma scan_no_semi: "SEMI \<notin> set l \<Longrightarrow> stmts (scan_chars st l) = stmts st"
proof (induction l arbitrary: st)
  case Nil
  then show ?case by (simp add: scan_chars_Nil)
next
  case (Cons c cs)
  have "stmts (scan_step st c) = stmts st" using Cons.prems by (auto simp: scan_step_def Let_def)
  with Cons show ?case by (simp add: scan_chars_Cons)
qed

lemma scan_in_single:
  "in_single st \<Longrightarrow> \<not> in_double st \<Longrightarrow> spec_quoted_body SQ (esc st) body \<Longrightarrow>
   scan_chars st body = st\<lparr>buff := buff st @ body, esc := False\<rparr>"
proof (induction body arbitrary: st)
  case Nil
  then show ?case by (simp add: scan_chars_Nil)
next
  case (Cons c cs)
  let ?st' = "st\<lparr>buff := buff st @ [c], esc := (c = BSL \<and> \<not> esc st)\<rparr>"
  have step: "scan_step st c = ?st'"
    using Cons.prems by (auto simp: scan_step_def Let_def)
  have "scan_chars ?st' cs = ?st'\<lparr>buff := buff ?st' @ cs, esc := False\<rparr>"
    using Cons.prems by (intro Cons.IH) simp_all
  then show ?case by (simp add: scan_chars_Cons step)
qed

lemma scan_in_double:
  "in_double st \<Longrightarrow> \<not> in_single st \<Longrightarrow> spec_quoted_body DQ (esc st) body \<Longrightarrow>
   scan_chars st body = st\<lparr>buff := buff st @ body, esc := False\<rparr>"
proof (induction body arbitrary: st)
  case Nil
  then show ?case by (simp add: scan_chars_Nil)
next
  case (Cons c cs)
  let ?st' = "st\<lparr>buff := buff st @ [c], esc := (c = BSL \<and> \<not> esc st)\<rparr>"
  have step: "scan_step st c = ?st'"
    using Cons.prems by (auto simp: scan_step_def Let_def)
  have "scan_chars ?st' cs = ?st'\<lparr>buff := buff ?st' @ cs, esc := False\<rparr>"
    using Cons.prems by (intro Cons.IH) simp_all
  then show ?case by (simp add: scan_chars_Cons step)
qed

lemma scan_literal:
  assumes "q = SQ \<or> q = DQ" and "\<not> in_single st" and "\<not> in_double st" and "\<not> esc st"
    and "spec_quoted_body q False body"
  shows "scan_chars st (q # body @ [q]) = st\<lparr>buff := buff st @ q # body @ [q]\<rparr>"
proof -
  from assms(1) show ?thesis
  proof
    assume q: "q = SQ"
    let ?s1 = "st\<lparr>buff := buff st @ [SQ], in_single := True\<rparr>"
    have open_q: "scan_step st SQ = ?s1"
      using assms(2-4) by (simp add: scan_step_def Let_def)
    have body: "scan_chars ?s1 body = ?s1\<lparr>buff := buff ?s1 @ body, esc := False\<rparr>"
      using assms(3-5) q by (intro scan_in_single) simp_all
    let ?s2 = "?s1\<lparr>buff := buff ?s1 @ body, esc := False\<rparr>"
    have close_q: "scan_step ?s2 SQ = st\<lparr>buff := buff st @ SQ # body @ [SQ]\<rparr>"
      using assms(2-4) by (simp add: scan_step_def Let_def)
    show ?thesis
      unfolding q scan_chars_Cons scan_chars_append open_q body scan_chars_Nil close_q ..
  next
    assume q: "q = DQ"
    let ?s1 = "st\<lparr>buff := buff st @ [DQ], in_double := True\<rparr>"
    have open_q: "scan_step st DQ = ?s1"
      using assms(2-4) by (simp add: scan_step_def Let_def)
    have body: "scan_chars ?s1 body = ?s1\<lparr>buff := buff ?s1 @ body, esc := False\<rparr>"
      using assms(2,4,5) q by (intro scan_in_double) simp_all
    let ?s2 = "?s1\<lparr>buff := buff ?s1 @ body, esc := False\<rparr>"
    have close_q: "scan_step ?s2 DQ = st\<lparr>buff := buff st @ DQ # body @ [DQ]\<rparr>"
      using assms(2-4) by (simp add: scan_step_def Let_def)
    show ?thesis
      unfolding q scan_chars_Cons scan_chars_append open_q body scan_chars_Nil close_q ..
  qed
qed

text \<open>
  Claim C1, as amended. In the character scan, a string literal that opens while no quote
  is open and no escape is active is taken into the current buffer whole: whatever the
  literal holds, terminators included, no statement is emitted inside it, and the scan
  goes on behind it with the quote flags closed again. This holds for both quote
  characters. The input \<^verbatim>\<open>SELECT ';' ; SELECT 1;\<close> splits into the two statements
  \<^verbatim>\<open>SELECT ';'\<close> and \<^verbatim>\<open>SELECT 1\<close>. The scan reads the text the comment filter
  returns.
\<close>

theorem terminator_in_quoted_literal_is_inert:
  assumes "q = SQ \<or> q = DQ" and "\<not> in_single st" and "\<not> in_double st" and "\<not> esc st"
    and "spec_quoted_body q False body"
  shows "scan_chars st (q # body @ [q] @ post) = scan_chars (st\<lparr>buff := buff st @ q # body @ [q]\<rparr>) post
     \<and> stmts (scan_chars st (q # body @ [q])) = stmts st
     \<and> split_mysql_statements (''SELECT '' @ [SQ] @ '';'' @ [SQ] @ '' ; SELECT 1;'')
         = [''SELECT '' @ [SQ] @ '';'' @ [SQ], ''SELECT 1'']"
proof (intro conjI)
  have lit: "scan_chars st (q # body @ [q]) = st\<lparr>buff := buff st @ q # body @ [q]\<rparr>"
    using assms by (rule scan_literal)
  have "scan_chars st (q # body @ [q] @ post) = scan_chars (scan_chars st (q # body @ [q])) post"
    using scan_chars_append [of st "q # body @ [q]" post] by simp
  then show "scan_chars st (q # body @ [q] @ post)
      = scan_chars (st\<lparr>buff := buff st @ q # body @ [q]\<rparr>) post"
    by (simp only: lit)
  show "stmts (scan_chars st (q # body @ [q])) = stmts st"
    by (simp add: lit)
  show "split_mysql_statements (''SELECT '' @ [SQ] @ '';'' @ [SQ] @ '' ; SELECT 1;'')
         = [''SELECT '' @ [SQ] @ '';'' @ [SQ], ''SELECT 1'']"
    by code_simp
qed

text \<open>The theorem at the literal \<^verbatim>\<open>';'\<close> read after \<^verbatim>\<open>SELECT \<close>.\<close>

theorem terminator_in_quoted_literal_witness:
  "(SQ = SQ \<or> SQ = DQ)
   \<and> \<not> in_single (scan_chars scan_init ''SELECT '')
   \<and> \<not> in_double (scan_chars scan_init ''SELECT '')
   \<and> \<not> esc (scan_chars scan_init ''SELECT '')
   \<and> spec_quoted_body SQ False '';''
   \<and> scan_chars (scan_chars scan_init ''SELECT '') (SQ # '';'' @ [SQ] @ '' ; SELECT 1;'')
       = scan_chars ((scan_chars scan_init ''SELECT '')
           \<lparr>buff := buff (scan_chars scan_init ''SELECT '') @ SQ # '';'' @ [SQ]\<rparr>) '' ; SELECT 1;''
   \<and> stmts (scan_chars (scan_chars scan_init ''SELECT '') (SQ # '';'' @ [SQ]))
       = stmts (scan_chars scan_init ''SELECT '')
   \<and> split_mysql_statements (''SELECT '' @ [SQ] @ '';'' @ [SQ] @ '' ; SELECT 1;'')
         = [''SELECT '' @ [SQ] @ '';'' @ [SQ], ''SELECT 1'']"
proof -
  have h1: "SQ = SQ \<or> SQ = DQ" by simp
  have h2: "\<not> in_single (scan_chars scan_init ''SELECT '')" by code_simp
  have h3: "\<not> in_double (scan_chars scan_init ''SELECT '')" by code_simp
  have h4: "\<not> esc (scan_chars scan_init ''SELECT '')" by code_simp
  have h5: "spec_quoted_body SQ False '';''" by code_simp
  note t = terminator_in_quoted_literal_is_inert [OF h1 h2 h3 h4 h5, of "'' ; SELECT 1;''"]
  show ?thesis by (rule t h1 h2 h3 h4 h5 conjI)+
qed

text \<open>
  The claim as stated, for every input text, fails: the comment filter cuts a line at
  \<^verbatim>\<open>--\<close> also inside a string literal. In the two lines \<^verbatim>\<open>SELECT '--';\<close> and
  \<^verbatim>\<open>SELECT ';';\<close> the first literal loses its closing quote, the quote state is
  inverted on the second line, and the splitter ends a statement at the terminator
  inside the literal \<^verbatim>\<open>';'\<close>: no statement it returns holds that literal.
\<close>

theorem comment_stripping_breaks_quoted_terminator:
  "contains [SQ, SEMI, SQ] (''SELECT '' @ [SQ] @ ''--'' @ [SQ] @ '';\<newline>SELECT '' @ [SQ] @ '';'' @ [SQ] @ '';'')
   \<and> split_mysql_statements (''SELECT '' @ [SQ] @ ''--'' @ [SQ] @ '';\<newline>SELECT '' @ [SQ] @ '';'' @ [SQ] @ '';'')
       = [''SELECT '' @ [SQ] @ ''\<newline>SELECT '' @ [SQ], [SQ] @ '';'']
   \<and> \<not> contains [SQ, SEMI, SQ] (''SELECT '' @ [SQ] @ ''\<newline>SELECT '' @ [SQ])
   \<and> \<not> contains [SQ, SEMI, SQ] ([SQ] @ '';'')"
  by code_simp

section \<open>Preserved marker lines\<close>

lemma scan_quotes_escaped:
  "SEMI \<notin> set l \<Longrightarrow> spec_quotes_escaped (esc st) l \<Longrightarrow>
   stmts (scan_chars st l) = stmts st \<and> in_single (scan_chars st l) = in_single st
   \<and> in_double (scan_chars st l) = in_double st \<and> buff (scan_chars st l) = buff st @ l"
proof (induction l arbitrary: st)
  case Nil
  show ?case by (simp add: scan_chars_Nil)
next
  case (Cons c cs)
  let ?st' = "st\<lparr>buff := buff st @ [c], esc := (c = BSL \<and> \<not> esc st)\<rparr>"
  have step: "scan_step st c = ?st'"
    using Cons.prems by (auto simp: scan_step_def Let_def)
  have "stmts (scan_chars ?st' cs) = stmts ?st' \<and> in_single (scan_chars ?st' cs) = in_single ?st'
   \<and> in_double (scan_chars ?st' cs) = in_double ?st' \<and> buff (scan_chars ?st' cs) = buff ?st' @ cs"
    using Cons.prems by (intro Cons.IH) simp_all
  then show ?case by (simp add: scan_chars_Cons step)
qed

lemma scan_step_NL:
  "scan_step st NL = st\<lparr>buff := buff st @ [NL], esc := False\<rparr>"
  by (simp add: scan_step_def Let_def)

lemma scan_line_NL:
  assumes "SEMI \<notin> set l" and "spec_quotes_escaped (esc st) l"
  shows "scan_chars st (l @ [NL]) = st\<lparr>buff := buff st @ l @ [NL], esc := False\<rparr>"
proof -
  let ?s = "scan_chars st l"
  from scan_quotes_escaped [OF assms]
  have f: "stmts ?s = stmts st" "in_single ?s = in_single st" "in_double ?s = in_double st"
    "buff ?s = buff st @ l" by simp_all
  have "scan_chars st (l @ [NL]) = scan_step ?s NL"
    by (simp add: scan_chars_append scan_chars_Cons scan_chars_Nil)
  also have "\<dots> = ?s\<lparr>buff := buff ?s @ [NL], esc := False\<rparr>" by (rule scan_step_NL)
  also have "\<dots> = st\<lparr>buff := buff st @ l @ [NL], esc := False\<rparr>"
    using f by (intro scan_state.equality) simp_all
  finally show ?thesis .
qed

lemma join_nl_Cons: "xs \<noteq> [] \<Longrightarrow> join_nl (x # xs) = (x @ [NL]) @ join_nl xs"
  by (cases xs) simp_all

text \<open>
  Claim C5, as amended. A line that the comment filter keeps under the preservation rule
  (a query marker line, or a line with the phase-marker token), read outside a block
  comment, is kept as it is after the replacement of its same-line block comments. If
  the kept line holds no terminator character and no quote character, single or double,
  other than escaped ones, then the character scan of the line ends no statement and
  leaves both quote flags as they were: the line only goes to the buffer. The scan of
  the whole filtered text is then the scan of the following lines, started from the
  state before the line with the line and its line break added to the buffer.
\<close>

theorem preserved_line_without_terminator_or_quote_is_inert:
  assumes "\<not> (contains ''/*'' line \<and> \<not> contains ''*/'' line)"
    and "is_q_marker_line (sub_inline_block line) \<or> has_segment_num (sub_inline_block line)"
    and "SEMI \<notin> set (sub_inline_block line)"
    and "spec_quotes_escaped (esc st) (sub_inline_block line)"
  shows "comment_filter False (line # rest) = sub_inline_block line # comment_filter False rest
     \<and> stmts (scan_chars st (sub_inline_block line)) = stmts st
     \<and> in_single (scan_chars st (sub_inline_block line)) = in_single st
     \<and> in_double (scan_chars st (sub_inline_block line)) = in_double st
     \<and> buff (scan_chars st (sub_inline_block line)) = buff st @ sub_inline_block line
     \<and> scan_chars st (join_nl (comment_filter False (line # rest)))
        = (if comment_filter False rest = [] then scan_chars st (sub_inline_block line)
           else scan_chars (st\<lparr>buff := buff st @ sub_inline_block line @ [NL], esc := False\<rparr>)
                  (join_nl (comment_filter False rest)))"
proof -
  let ?l = "sub_inline_block line"
  have kept: "comment_filter False (line # rest) = ?l # comment_filter False rest"
    using assms(1,2) by (auto simp: Let_def)
  note flags = scan_quotes_escaped [OF assms(3,4)]
  have whole: "scan_chars st (join_nl (comment_filter False (line # rest)))
        = (if comment_filter False rest = [] then scan_chars st ?l
           else scan_chars (st\<lparr>buff := buff st @ ?l @ [NL], esc := False\<rparr>)
                  (join_nl (comment_filter False rest)))"
  proof (cases "comment_filter False rest = []")
    case True
    show ?thesis by (simp only: kept True join_nl.simps simp_thms if_True)
  next
    case False
    have "scan_chars st (join_nl (?l # comment_filter False rest))
        = scan_chars (scan_chars st (?l @ [NL])) (join_nl (comment_filter False rest))"
      by (simp only: join_nl_Cons [OF False] scan_chars_append)
    then show ?thesis using False by (simp only: kept scan_line_NL [OF assms(3,4)] if_False)
  qed
  from kept flags whole show ?thesis by (intro conjI) blast+
qed

text \<open>
  The theorem at the marker line \<^verbatim>\<open>-- Q1 - Find something\<close> and at the phase-marker
  line \<^verbatim>\<open>-- Segment 2: /* notes */ ratings\<close>, each followed by one statement.
\<close>

theorem preserved_line_without_terminator_or_quote_witness:
  "\<not> (contains ''/*'' ''-- Q1 - Find something'' \<and> \<not> contains ''*/'' ''-- Q1 - Find something'')
   \<and> is_q_marker_line (sub_inline_block ''-- Q1 - Find something'')
   \<and> SEMI \<notin> set (sub_inline_block ''-- Q1 - Find something'')
   \<and> spec_quotes_escaped (esc scan_init) (sub_inline_block ''-- Q1 - Find something'')
   \<and> (comment_filter False (''-- Q1 - Find something'' # [''SELECT 1;'']) = sub_inline_block ''-- Q1 - Find something'' # comment_filter False [''SELECT 1;'']
     \<and> stmts (scan_chars scan_init (sub_inline_block ''-- Q1 - Find something'')) = stmts scan_init
     \<and> in_single (scan_chars scan_init (sub_inline_block ''-- Q1 - Find something'')) = in_single scan_init
     \<and> in_double (scan_chars scan_init (sub_inline_block ''-- Q1 - Find something'')) = in_double scan_init
     \<and> buff (scan_chars scan_init (sub_inline_block ''-- Q1 - Find something'')) = buff scan_init @ sub_inline_block ''-- Q1 - Find something''
     \<and> scan_chars scan_init (join_nl (comment_filter False (''-- Q1 - Find something'' # [''SELECT 1;''])))
        = (if comment_filter False [''SELECT 1;''] = [] then scan_chars scan_init (sub_inline_block ''-- Q1 - Find something'')
           else scan_chars (scan_init\<lparr>buff := buff scan_init @ sub_inline_block ''-- Q1 - Find something'' @ [NL], esc := False\<rparr>)
                  (join_nl (comment_filter False [''SELECT 1;'']))))
   \<and> sub_inline_block ''-- Q1 - Find something'' = ''-- Q1 - Find something''
   \<and> split_mysql_statements ''-- Q1 - Find something\<newline>SELECT 1;'' = [''-- Q1 - Find something\<newline>SELECT 1'']
   \<and> \<not> (contains ''/*'' ''-- Segment 2: /* notes */ ratings'' \<and> \<not> contains ''*/'' ''-- Segment 2: /* notes */ ratings'')
   \<and> has_segment_num (sub_inline_block ''-- Segment 2: /* notes */ ratings'')
   \<and> SEMI \<notin> set (sub_inline_block ''-- Segment 2: /* notes */ ratings'')
   \<and> spec_quotes_escaped (esc scan_init) (sub_inline_block ''-- Segment 2: /* notes */ ratings'')
   \<and> (comment_filter False (''-- Segment 2: /* notes */ ratings'' # [''SELECT 2;'']) = sub_inline_block ''-- Segment 2: /* notes */ ratings'' # comment_filter False [''SELECT 2;'']
     \<and> stmts (scan_chars scan_init (sub_inline_block ''-- Segment 2: /* notes */ ratings'')) = stmts scan_init
     \<and> in_single (scan_chars scan_init (sub_inline_block ''-- Segment 2: /* notes */ ratings'')) = in_single scan_init
     \<and> in_double (scan_chars scan_init (sub_inline_block ''-- Segment 2: /* notes */ ratings'')) = in_double scan_init
     \<and> buff (scan_chars scan_init (sub_inline_block ''-- Segment 2: /* notes */ ratings'')) = buff scan_init @ sub_inline_block ''-- Segment 2: /* notes */ ratings''
     \<and> scan_chars scan_init (join_nl (comment_filter False (''-- Segment 2: /* notes */ ratings'' # [''SELECT 2;''])))
        = (if comment_filter False [''SELECT 2;''] = [] then scan_chars scan_init (sub_inline_block ''-- Segment 2: /* notes */ ratings'')
           else scan_chars (scan_init\<lparr>buff := buff scan_init @ sub_inline_block ''-- Segment 2: /* notes */ ratings'' @ [NL], esc := False\<rparr>)
                  (join_nl (comment_filter False [''SELECT 2;'']))))
   \<and> sub_inline_block ''-- Segment 2: /* notes */ ratings'' = ''-- Segment 2:   ratings''
   \<and> split_mysql_statements ''-- Segment 2: /* notes */ ratings\<newline>SELECT 2;'' = [''-- Segment 2:   ratings\<newline>SELECT 2'']"
proof -
  have a1: "\<not> (contains ''/*'' ''-- Q1 - Find something'' \<and> \<not> contains ''*/'' ''-- Q1 - Find something'')"
    by code_simp
  have a2: "is_q_marker_line (sub_inline_block ''-- Q1 - Find something'')"
    by code_simp
  have a3: "SEMI \<notin> set (sub_inline_block ''-- Q1 - Find something'')"
    by code_simp
  have a4: "spec_quotes_escaped (esc scan_init) (sub_inline_block ''-- Q1 - Find something'')"
    by code_simp
  have a5: "sub_inline_block ''-- Q1 - Find something'' = ''-- Q1 - Find something''"
    by code_simp
  have a6: "split_mysql_statements ''-- Q1 - Find something\<newline>SELECT 1;'' = [''-- Q1 - Find something\<newline>SELECT 1'']"
    by code_simp
  have b1: "\<not> (contains ''/*'' ''-- Segment 2: /* notes */ ratings'' \<and> \<not> contains ''*/'' ''-- Segment 2: /* notes */ ratings'')"
    by code_simp
  have b2: "has_segment_num (sub_inline_block ''-- Segment 2: /* notes */ ratings'')"
    by code_simp
  have b3: "SEMI \<notin> set (sub_inline_block ''-- Segment 2: /* notes */ ratings'')"
    by code_simp
  have b4: "spec_quotes_escaped (esc scan_init) (sub_inline_block ''-- Segment 2: /* notes */ ratings'')"
    by code_simp
  have b5: "sub_inline_block ''-- Segment 2: /* notes */ ratings'' = ''-- Segment 2:   ratings''"
    by code_simp
  have b6: "split_mysql_statements ''-- Segment 2: /* notes */ ratings\<newline>SELECT 2;'' = [''-- Segment 2:   ratings\<newline>SELECT 2'']"
    by code_simp
  note a = preserved_line_without_terminator_or_quote_is_inert [OF a1 disjI1 [OF a2] a3 a4, of "[''SELECT 1;'']"]
  note b = preserved_line_without_terminator_or_quote_is_inert [OF b1 disjI2 [OF b2] b3 b4, of "[''SELECT 2;'']"]
  show ?thesis by (rule a b a1 a2 a3 a4 a5 a6 b1 b2 b3 b4 b5 b6 conjI)+
qed

text \<open>
  The preservation rule excludes neither terminators nor quote characters. The marker
  line \<^verbatim>\<open>-- Q3 - Find movies; sort by year\<close> is kept with its terminator, and the scan
  ends a statement there. The marker line \<^verbatim>\<open>-- Q1 - director's movies\<close> holds no
  terminator, but its apostrophe opens a quoted text for the scan, so that the statement
  \<^verbatim>\<open>SELECT ';' AS c;\<close> of the next line is cut inside its literal.
\<close>

theorem preserved_marker_line_with_terminator_or_quote_splits:
  "is_q_marker_line ''-- Q3 - Find movies; sort by year''
   \<and> comment_filter False [''-- Q3 - Find movies; sort by year'', ''SELECT 1;'']
        = [''-- Q3 - Find movies; sort by year'', ''SELECT 1;'']
   \<and> SEMI \<in> set ''-- Q3 - Find movies; sort by year''
   \<and> split_mysql_statements ''-- Q3 - Find movies; sort by year\<newline>SELECT 1;''
        = [''-- Q3 - Find movies'', ''sort by year\<newline>SELECT 1'']
   \<and> is_q_marker_line ''-- Q1 - director's movies''
   \<and> SEMI \<notin> set ''-- Q1 - director's movies''
   \<and> comment_filter False [''-- Q1 - director's movies'', ''SELECT ';' AS c;'']
        = [''-- Q1 - director's movies'', ''SELECT ';' AS c;'']
   \<and> in_single (scan_chars scan_init ''-- Q1 - director's movies'')
   \<and> split_mysql_statements ''-- Q1 - director's movies\<newline>SELECT ';' AS c;''
        = [''-- Q1 - director's movies\<newline>SELECT '' @ [SQ], [SQ] @ '' AS c;'']"
  by code_simp

section \<open>Block comments on one line\<close>

lemma after_close_found:
  "\<not> contains ''*/'' body \<Longrightarrow> after_close (body @ ''*/'' @ post) = Some post"
proof (induction body rule: after_close.induct)
  case 1
  show ?case by simp
next
  case (2 c)
  show ?case by simp
next
  case (3 c d cs)
  from "3.prems" have ncd: "\<not> (c = CHR ''*'' \<and> d = CHR ''/'')" and rest: "\<not> contains ''*/'' (d # cs)"
    by auto
  from ncd rest "3.IH" have "after_close ((d # cs) @ ''*/'' @ post) = Some post" by blast
  with ncd show ?case by auto
qed

lemma startswith_append: "startswith s p \<Longrightarrow> startswith (s @ t) p"
  by (induction s p rule: startswith.induct) auto

lemma contains_middle: "contains sub (a @ sub @ b)"
proof (induction a)
  case Nil
  have "startswith (sub @ b) sub" by (induction sub) auto
  then show ?case by (cases "sub @ b") auto
next
  case (Cons c cs)
  then show ?case by simp
qed

lemma sub_inline_block_skip:
  "\<not> startswith (c # xs) ''/*'' \<Longrightarrow> sub_inline_block (c # xs) = c # sub_inline_block xs"
  by auto

lemma sub_inline_block_first:
  assumes "\<not> contains ''/*'' pre" and "\<not> contains ''*/'' body"
  shows "sub_inline_block (pre @ ''/*'' @ body @ ''*/'' @ post) = pre @ '' '' @ sub_inline_block post"
  using assms(1)
proof (induction pre)
  case Nil
  have "after_close (body @ ''*/'' @ post) = Some post" using assms(2) by (rule after_close_found)
  then show ?case by simp
next
  case (Cons c cs)
  from Cons.prems have nsw: "\<not> startswith (c # cs) ''/*''" and rest: "\<not> contains ''/*'' cs"
    by auto
  have "\<not> startswith (c # cs @ ''/*'' @ body @ ''*/'' @ post) ''/*''"
    using nsw by (cases cs) auto
  then have "sub_inline_block (c # cs @ ''/*'' @ body @ ''*/'' @ post)
      = c # sub_inline_block (cs @ ''/*'' @ body @ ''*/'' @ post)"
    by (rule sub_inline_block_skip)
  with Cons.IH [OF rest] show ?case by simp
qed

text \<open>
  Claim C6. A block comment that opens and closes on one line is replaced by one space,
  the text before it kept as it is and the text behind it treated the same way; the
  line holds the closing delimiter, so the filter does not take it for the start of a
  comment over several lines. The input \<^verbatim>\<open>A /* x; y */ B;\<close> splits into the one
  statement \<^verbatim>\<open>A   B\<close>, which holds neither delimiter nor the comment's text.
\<close>

theorem same_line_block_comment_becomes_one_space:
  assumes "\<not> contains ''/*'' pre" and "\<not> contains ''*/'' body"
  shows "sub_inline_block (pre @ ''/*'' @ body @ ''*/'' @ post) = pre @ '' '' @ sub_inline_block post
     \<and> contains ''*/'' (pre @ ''/*'' @ body @ ''*/'' @ post)
     \<and> split_mysql_statements ''A /* x; y */ B;'' = [''A   B'']
     \<and> \<not> contains ''/*'' ''A   B'' \<and> \<not> contains ''*/'' ''A   B'' \<and> \<not> contains ''x; y'' ''A   B''"
proof (intro conjI)
  show "sub_inline_block (pre @ ''/*'' @ body @ ''*/'' @ post) = pre @ '' '' @ sub_inline_block post"
    using assms by (rule sub_inline_block_first)
  show "contains ''*/'' (pre @ ''/*'' @ body @ ''*/'' @ post)"
    using contains_middle [of "''*/''" "pre @ ''/*'' @ body" post] by simp
  show "split_mysql_statements ''A /* x; y */ B;'' = [''A   B'']" by code_simp
  show "\<not> contains ''/*'' ''A   B''" by code_simp
  show "\<not> contains ''*/'' ''A   B''" by code_simp
  show "\<not> contains ''x; y'' ''A   B''" by code_simp
qed

text \<open>The theorem at the line \<^verbatim>\<open>A /* x; y */ B;\<close>.\<close>

theorem same_line_block_comment_witness:
  "\<not> contains ''/*'' ''A '' \<and> \<not> contains ''*/'' '' x; y ''
   \<and> sub_inline_block (''A '' @ ''/*'' @ '' x; y '' @ ''*/'' @ '' B;'') = ''A '' @ '' '' @ sub_inline_block '' B;''
   \<and> sub_inline_block '' B;'' = '' B;''
   \<and> split_mysql_statements ''A /* x; y */ B;'' = [''A   B'']"
proof -
  have h1: "\<not> contains ''/*'' ''A ''" by code_simp
  have h2: "\<not> contains ''*/'' '' x; y ''" by code_simp
  have h3: "sub_inline_block '' B;'' = '' B;''" by code_simp
  note t = same_line_block_comment_becomes_one_space [OF h1 h2, of "'' B;''"]
  from t have c1: "sub_inline_block (''A '' @ ''/*'' @ '' x; y '' @ ''*/'' @ '' B;'') = ''A '' @ '' '' @ sub_inline_block '' B;''"
    by (rule conjunct1)
  from t have c2: "split_mysql_statements ''A /* x; y */ B;'' = [''A   B'']"
    by blast
  show ?thesis by (rule h1 h2 h3 c1 c2 conjI)+
qed

section \<open>The loop over the markers\<close>













section \<open>Totality\<close>








section \<open>Markers without a query\<close>






section \<open>The query search of the extractor and quoted text\<close>

text \<open>
  Claim C10. The search for the query of a block is not aware of quotes, unlike the
  splitter: for the block of the marker line \<^verbatim>\<open>-- Q1 - x\<close> followed by
  \<^verbatim>\<open>SELECT ';' AS c;\<close> the match ends at the terminator inside the string literal, so
  the extracted sql is \<^verbatim>\<open>SELECT '\<close>, while the splitter keeps the statement whole up
  to its true end.
\<close>

theorem extractor_search_ignores_quotes:
  "query_search (''-- Q1 - x\<newline>SELECT '' @ [SQ] @ '';'' @ [SQ] @ '' AS c;'')
     = Some (''SELECT '' @ [SQ] @ '';'')
   \<and> (case extract_setup_and_queries (''-- Q1 - x\<newline>SELECT '' @ [SQ] @ '';'' @ [SQ] @ '' AS c;'') of
        Inl e \<Rightarrow> None
      | Inr (s, q) \<Rightarrow> map_option (\<lambda>e. (label e, sql e)) (q ''Q01''))
       = Some (''Q1 - x'', ''SELECT '' @ [SQ])
   \<and> split_mysql_statements (''-- Q1 - x\<newline>SELECT '' @ [SQ] @ '';'' @ [SQ] @ '' AS c;'')
       = [''-- Q1 - x\<newline>SELECT '' @ [SQ] @ '';'' @ [SQ] @ '' AS c'']"
  by code_simp

end
